theory Spec2Isabelle
  imports Main "HOL-Library.AList"
begin

section \<open>Strings and characters\<close>

text \<open>
  The program works on Python \<open>str\<close> values.  A string is modelled as a list of code
  points below 256, one \<^typ>\<open>char\<close> each, whose number is \<open>of_char c\<close>.  On that range
  the three character tests of the standard library that the program relies on are the
  following tables: \<open>re.match(r"\W", c)\<close>, \<open>c.lower()\<close> (always a single character
  there) and \<open>c.isspace()\<close>, the separator set of \<open>str.split()\<close>.
\<close>

definition code_point :: "char \<Rightarrow> nat" where
  "code_point c = of_char c"

definition in_range :: "nat \<Rightarrow> nat \<Rightarrow> nat \<Rightarrow> bool" where
  "in_range lo hi n = (lo \<le> n \<and> n \<le> hi)"

definition is_word_char :: "char \<Rightarrow> bool" where
  "is_word_char c =
     (let n = code_point c in
      in_range 48 57 n \<or> in_range 65 90 n \<or> n = 95 \<or> in_range 97 122 n \<or>
      n = 170 \<or> in_range 178 179 n \<or> n = 181 \<or> in_range 185 186 n \<or>
      in_range 188 190 n \<or> in_range 192 214 n \<or> in_range 216 246 n \<or>
      in_range 248 255 n)"

definition matches_nonword :: "char \<Rightarrow> bool" where
  \<comment> \<open>\<open>re.match(r"\W", char)\<close> on a one-character string\<close>
  "matches_nonword c = (\<not> is_word_char c)"

definition lower_char :: "char \<Rightarrow> char" where
  "lower_char c =
     (let n = code_point c in
      if in_range 65 90 n \<or> in_range 192 214 n \<or> in_range 216 222 n
      then char_of (n + 32) else c)"

definition lower :: "string \<Rightarrow> string" where
  \<comment> \<open>\<open>str.lower()\<close>\<close>
  "lower s = map lower_char s"

definition is_space :: "char \<Rightarrow> bool" where
  "is_space c =
     (let n = code_point c in
      in_range 9 13 n \<or> in_range 28 32 n \<or> n = 133 \<or> n = 160)"

abbreviation apostrophe :: char where
  "apostrophe \<equiv> CHR 0x27"

abbreviation hyphen :: char where
  "hyphen \<equiv> CHR ''-''"

abbreviation blank :: char where
  "blank \<equiv> CHR '' ''"

section \<open>Token cleaning\<close>

text \<open>
  \<open>clean_token\<close> walks over the characters of the token with their index \<open>i\<close>; \<open>n\<close> is
  \<open>len(list(token))\<close>, computed on the raw token, and the last argument is the string
  built so far.  Indices are Python integers, so \<open>n - 2\<close> is negative for a token shorter
  than two characters.
\<close>

fun clean_loop :: "int \<Rightarrow> int \<Rightarrow> string \<Rightarrow> string \<Rightarrow> string" where
  "clean_loop n i [] clean = clean"
| "clean_loop n i (char # rest) clean =
     (if matches_nonword char then
        (if char \<notin> {apostrophe, hyphen} then clean_loop n (i + 1) rest clean
         else if char = apostrophe \<and> i \<noteq> n - 2 then clean_loop n (i + 1) rest clean
         else clean_loop n (i + 1) rest (clean @ [lower_char char]))
      else clean_loop n (i + 1) rest (clean @ [lower_char char]))"

definition clean_token :: "string \<Rightarrow> string" where
  "clean_token token = clean_loop (int (length token)) 0 token []"

section \<open>Splitting and joining sentences\<close>

text \<open>
  \<open>sequence.split(" ")\<close> cuts at every single blank, so it always returns at least one
  piece and two adjacent blanks give an empty piece; \<open>" ".join(xs)\<close> is its inverse.
  \<open>text.split()\<close> cuts at runs of whitespace and returns no empty piece.
  In \<open>split_sp\<close> the pieces of the rest are never the empty list, so the first branch
  of the case is never taken.
\<close>

fun split_sp :: "string \<Rightarrow> string list" where
  "split_sp [] = ['''']"
| "split_sp (c # cs) =
     (if c = blank then [] # split_sp cs
      else (case split_sp cs of
              [] \<Rightarrow> [c # []]
            | piece # pieces \<Rightarrow> (c # piece) # pieces))"

fun join_sp :: "string list \<Rightarrow> string" where
  "join_sp [] = []"
| "join_sp [x] = x"
| "join_sp (x # y # ys) = x @ [blank] @ join_sp (y # ys)"

fun split_ws_loop :: "string \<Rightarrow> string \<Rightarrow> string list" where
  "split_ws_loop [] w = (if w = [] then [] else [w])"
| "split_ws_loop (c # cs) w =
     (if is_space c then (if w = [] then split_ws_loop cs [] else w # split_ws_loop cs [])
      else split_ws_loop cs (w @ [c]))"

definition split_ws :: "string \<Rightarrow> string list" where
  "split_ws text = split_ws_loop text []"

definition enumerate :: "'a list \<Rightarrow> (nat \<times> 'a) list" where
  "enumerate xs = zip [0..<length xs] xs"

section \<open>The corrector and what it depends on\<close>

datatype error =
  FileNotFoundError | ParserError | KeyError | DictNotFoundError | ModelError
  | IndexError | TypeError | AttributeError

text \<open>
  A \<open>collections.Counter\<close> is an association list in insertion order; reading a key that
  is not there gives 0, and \<open>update\<close> with a list of words adds one per occurrence.
\<close>

type_synonym counter = "(string \<times> int) list"

definition count_of :: "counter \<Rightarrow> string \<Rightarrow> int" where
  "count_of fl k = (case map_of fl k of None \<Rightarrow> 0 | Some v \<Rightarrow> v)"

definition counter_update :: "counter \<Rightarrow> string list \<Rightarrow> counter" where
  "counter_update fl ws = fold (\<lambda>w acc. AList.update w (count_of acc w + 1) acc) ws fl"

text \<open>
  The libraries the class calls are parameters of the model.  A dictionary provider is
  its \<open>check\<close> method, a total yes/no answer on strings.  \<open>enchant_Dict\<close> is the
  constructor \<open>enchant.Dict(tag)\<close>, which fails when the word list is not installed.
  \<open>read_csv\<close> is \<open>pd.read_csv(path, encoding="utf-8")\<close>; the data frame it returns is
  the list of its columns, each a name with its cells.
\<close>

type_synonym dict = "string \<Rightarrow> bool"

type_synonym dataframe = "(string \<times> string list) list"

record resources =
  enchant_Dict :: "string \<Rightarrow> error + dict"
  read_csv :: "string \<Rightarrow> error + dataframe"

text \<open>
  The pretrained tokenizer and model: the mask placeholder, \<open>tokenizer.decode([id])\<close>,
  and \<open>predict\<close>, the tensor computation of \<open>generate_candidates\<close> (encode the
  sentence, find the mask, run the model, take the \<open>topn\<close> best vocabulary ids).
\<close>

record language_model =
  mask_token :: string
  decode :: "int \<Rightarrow> string"
  predict :: "string \<Rightarrow> nat \<Rightarrow> error + int list"

record TransSpell =
  lm :: language_model
  stopwords :: "string list"
  char_minimum :: int
  frequency_maximum :: int
  dict_us :: "dict option"
  dict_gb :: "dict option"
  frequency_list :: "counter option"

definition generate_candidates :: "TransSpell \<Rightarrow> string \<Rightarrow> nat \<Rightarrow> error + int list" where
  "generate_candidates self sequence topn = predict (lm self) sequence topn"

section \<open>The frequency list and the constructor\<close>

text \<open>
  \<open>generate_frequency_list\<close> returns what it prints, the object after the call and the
  value it returns or the exception it raises.  Every path that returns, returns \<open>None\<close>.
\<close>

definition not_found_message :: string where
  "not_found_message =
     ''Corpus could not be found in provided path. Proceeding without frequency list.''"

definition count_texts :: "string list \<Rightarrow> counter \<Rightarrow> counter" where
  "count_texts texts fl =
     fold (\<lambda>text acc. counter_update acc (map clean_token (split_ws text))) texts fl"

definition generate_frequency_list ::
  "resources \<Rightarrow> TransSpell \<Rightarrow> string \<Rightarrow> string list \<times> TransSpell \<times> (error + counter option)"
where
  "generate_frequency_list W self path =
     (case read_csv W path of
        Inl FileNotFoundError \<Rightarrow> ([not_found_message], self, Inr None)
      | Inl e \<Rightarrow> ([], self, Inl e)
      | Inr df \<Rightarrow>
          (let self1 = self\<lparr>frequency_list := Some []\<rparr> in
           case map_of df ''answers'' of
             None \<Rightarrow> ([], self1, Inl KeyError)
           | Some texts \<Rightarrow>
               ([], self1\<lparr>frequency_list := Some (count_texts texts [])\<rparr>, Inr None)))"

definition init ::
  "resources \<Rightarrow> language_model \<Rightarrow> string list \<Rightarrow> int \<Rightarrow> int \<Rightarrow> string option
     \<Rightarrow> string list \<times> (error + TransSpell)"
where
  "init W pretrained english minimum_token_length maximum_frequency corpus_path =
     (let self = \<lparr>lm = pretrained, stopwords = english,
                  char_minimum = minimum_token_length,
                  frequency_maximum = maximum_frequency,
                  dict_us = None, dict_gb = None, frequency_list = None\<rparr>
      in case corpus_path of
           None \<Rightarrow> ([], Inr self)
         | Some path \<Rightarrow>
             if path = [] then ([], Inr self)
             else (case generate_frequency_list W self path of
                     (out, self1, Inl e) \<Rightarrow> (out, Inl e)
                   | (out, self1, Inr returned) \<Rightarrow>
                       (out, Inr (self1\<lparr>frequency_list := returned\<rparr>))))"

section \<open>Rule-based detection\<close>

text \<open>
  \<open>is_error\<close> returns the object after the call (the providers it has constructed stay
  in it) and the verdict or the exception.  A provider object is always truthy, a Counter
  is truthy when it has at least one key.
\<close>

definition too_short :: "TransSpell \<Rightarrow> string \<Rightarrow> bool" where
  "too_short self token = (int (length token) \<le> char_minimum self)"

definition too_frequent :: "TransSpell \<Rightarrow> string \<Rightarrow> bool" where
  "too_frequent self token =
     (case frequency_list self of
        None \<Rightarrow> False
      | Some fl \<Rightarrow> fl \<noteq> [] \<and> count_of fl token > frequency_maximum self)"

definition ensure_dict_us :: "resources \<Rightarrow> TransSpell \<Rightarrow> error + TransSpell" where
  "ensure_dict_us W self =
     (case dict_us self of
        Some d \<Rightarrow> Inr self
      | None \<Rightarrow> (case enchant_Dict W ''en_US'' of
                   Inl e \<Rightarrow> Inl e
                 | Inr d \<Rightarrow> Inr (self\<lparr>dict_us := Some d\<rparr>)))"

definition ensure_dict_gb :: "resources \<Rightarrow> TransSpell \<Rightarrow> error + TransSpell" where
  "ensure_dict_gb W self =
     (case dict_gb self of
        Some d \<Rightarrow> Inr self
      | None \<Rightarrow> (case enchant_Dict W ''en_GB'' of
                   Inl e \<Rightarrow> Inl e
                 | Inr d \<Rightarrow> Inr (self\<lparr>dict_gb := Some d\<rparr>)))"

definition known_word :: "TransSpell \<Rightarrow> string \<Rightarrow> error + bool" where
  "known_word self token =
     (case dict_us self of
        None \<Rightarrow> Inl AttributeError
      | Some us \<Rightarrow>
          if us token then Inr True
          else (case dict_gb self of
                  None \<Rightarrow> Inl AttributeError
                | Some gb \<Rightarrow> Inr (gb token)))"

definition detection_rules :: "TransSpell \<Rightarrow> string \<Rightarrow> error + bool" where
  "detection_rules self token =
     (if too_short self token then Inr False
      else if too_frequent self token then Inr False
      else (case known_word self token of
              Inl e \<Rightarrow> Inl e
            | Inr known \<Rightarrow> if known then Inr False else Inr True))"

definition is_error :: "resources \<Rightarrow> TransSpell \<Rightarrow> string \<Rightarrow> TransSpell \<times> (error + bool)" where
  "is_error W self raw =
     (let token = clean_token raw in
      case ensure_dict_us W self of
        Inl e \<Rightarrow> (self, Inl e)
      | Inr self1 \<Rightarrow>
          (case ensure_dict_gb W self1 of
             Inl e \<Rightarrow> (self1, Inl e)
           | Inr self2 \<Rightarrow> (self2, detection_rules self2 token)))"

section \<open>Context-sensitive correction\<close>

text \<open>
  The list \<open>results\<close> holds vocabulary ids when \<open>generate_candidates\<close> returns it, and
  the inner loop overwrites each entry it visits with its decoded string.  \<open>scan\<close> is that
  loop: it returns \<open>contained_in_suggestions\<close> and the list as the loop leaves it.
\<close>

datatype candidate = Code int | Decoded string

fun scan :: "(int \<Rightarrow> string) \<Rightarrow> string \<Rightarrow> int list \<Rightarrow> bool \<times> candidate list" where
  "scan dec token [] = (False, [])"
| "scan dec token (c # cs) =
     (let suggestion = dec c in
      if lower suggestion = lower token then (True, Decoded suggestion # map Code cs)
      else (case scan dec token cs of (found, rs) \<Rightarrow> (found, Decoded suggestion # rs)))"

definition masked :: "TransSpell \<Rightarrow> string list \<Rightarrow> nat \<Rightarrow> string" where
  "masked self temp_sent i = join_sp (temp_sent[i := mask_token (lm self)])"

text \<open>
  The body of the outer loop for a position that is not skipped.  Writing at an index
  outside the list, reading \<open>results[0]\<close> of an empty list and joining a list that holds
  an id are the exceptions Python raises.
\<close>

definition correct_token ::
  "TransSpell \<Rightarrow> nat \<Rightarrow> string \<Rightarrow> string list \<Rightarrow> error + string list"
where
  "correct_token self i token temp_sent =
     (if length temp_sent \<le> i then Inl IndexError
      else case generate_candidates self (masked self temp_sent i) 25 of
             Inl e \<Rightarrow> Inl e
           | Inr results \<Rightarrow>
               (case scan (decode (lm self)) token results of
                  (True, rs) \<Rightarrow> Inr temp_sent
                | (False, []) \<Rightarrow> Inl IndexError
                | (False, Decoded w # rs) \<Rightarrow> Inr (temp_sent[i := w])
                | (False, Code c # rs) \<Rightarrow> Inl TypeError))"

text \<open>
  The outer loop over \<open>enumerate(sequence.split(" "))\<close>, with \<open>temp_sent\<close> as its state.
  Beside the result it returns the masked sentences it has sent to the model, in order:
  one entry per call of \<open>generate_candidates\<close>.
\<close>

fun correct_loop ::
  "TransSpell \<Rightarrow> (nat \<times> string) list \<Rightarrow> string list \<Rightarrow> string list \<times> (error + string list)"
where
  "correct_loop self [] temp_sent = ([], Inr temp_sent)"
| "correct_loop self ((i, token) # rest) temp_sent =
     (if i = 0 \<or> token \<in> set (stopwords self) then correct_loop self rest temp_sent
      else case correct_token self i token temp_sent of
             Inl e \<Rightarrow> ([masked self temp_sent i], Inl e)
           | Inr temp_sent' \<Rightarrow>
               (case correct_loop self rest temp_sent' of
                  (queries, r) \<Rightarrow> (masked self temp_sent i # queries, r)))"

definition correct_errors :: "TransSpell \<Rightarrow> string \<Rightarrow> string list \<times> (error + string)" where
  "correct_errors self sequence =
     (let temp_sent = split_sp sequence in
      case correct_loop self (enumerate (split_sp sequence)) temp_sent of
        (queries, Inl e) \<Rightarrow> (queries, Inl e)
      | (queries, Inr final) \<Rightarrow> (queries, Inr (join_sp final)))"

section \<open>The life of an instance\<close>

text \<open>
  The methods of the class, as calls on one instance; \<open>after\<close> is the instance a call
  leaves behind, whether it returned or raised.
\<close>

datatype call =
  Is_error string | Correct_errors string | Generate_candidates string nat
  | Generate_frequency_list string | Clean_token string

fun after :: "resources \<Rightarrow> TransSpell \<Rightarrow> call \<Rightarrow> TransSpell" where
  "after W self (Is_error token) = fst (is_error W self token)"
| "after W self (Correct_errors sequence) = self"
| "after W self (Generate_candidates sequence topn) = self"
| "after W self (Generate_frequency_list path) = fst (snd (generate_frequency_list W self path))"
| "after W self (Clean_token token) = self"

definition lifetime :: "resources \<Rightarrow> TransSpell \<Rightarrow> call list \<Rightarrow> TransSpell" where
  "lifetime W self calls = fold (\<lambda>c s. after W s c) calls self"

section \<open>Example instances\<close>

text \<open>
  Small concrete models, word lists and corpora, used where a statement is evaluated.
\<close>

definition example_model :: language_model where
  "example_model =
     \<lparr>mask_token = ''[MASK]'',
      decode = (\<lambda>c. if c = 1 then ''sure'' else if c = 2 then ''Made'' else ''it''),
      predict = (\<lambda>sequence topn. Inr [1, 2, 3])\<rparr>"

definition example_resources :: resources where
  "example_resources =
     \<lparr>enchant_Dict = (\<lambda>tag. if tag = ''en_US'' then Inr (\<lambda>w. w \<in> set [''color'', ''hello''])
                           else if tag = ''en_GB'' then Inr (\<lambda>w. w \<in> set [''colour'', ''hello''])
                           else Inl DictNotFoundError),
      read_csv = (\<lambda>path. if path = ''corpus.csv''
                         then Inr [(''id'', [''1'', ''2'']), (''answers'', [''Hello world,'', ''hello again''])]
                         else Inl FileNotFoundError)\<rparr>"

definition bare_resources :: resources where
  "bare_resources =
     \<lparr>enchant_Dict = (\<lambda>tag. Inl DictNotFoundError),
      read_csv = (\<lambda>path. Inl FileNotFoundError)\<rparr>"

definition us_only_resources :: resources where
  "us_only_resources =
     \<lparr>enchant_Dict = (\<lambda>tag. if tag = ''en_US'' then Inr (\<lambda>w. w \<in> set [''color'', ''hello''])
                           else Inl DictNotFoundError),
      read_csv = (\<lambda>path. Inl FileNotFoundError)\<rparr>"

definition loaded_instance :: TransSpell where
  "loaded_instance =
     \<lparr>lm = example_model, stopwords = [''to'', ''the''],
      char_minimum = 3, frequency_maximum = 10,
      dict_us = Some (\<lambda>w. w \<in> set [''color'', ''hello'']),
      dict_gb = Some (\<lambda>w. w \<in> set [''colour'', ''hello'']),
      frequency_list = None\<rparr>"

definition example_instance :: TransSpell where
  "example_instance =
     \<lparr>lm = example_model, stopwords = [''to'', ''the''],
      char_minimum = 3, frequency_maximum = 10,
      dict_us = None, dict_gb = None,
      frequency_list = Some [(''recieve'', 10), (''hello'', 11)]\<rparr>"

section \<open>Notions used in the statements\<close>

text \<open>
  A character is \<open>plain\<close> when cleaning keeps it wherever it stands: a word character or
  a hyphen.  \<open>kept n i c\<close> is the test of one round of the loop.  A token is \<open>stranded\<close>
  when its second-to-last character is an apostrophe and its last character is one that
  cleaning drops.
\<close>

definition plain :: "char \<Rightarrow> bool" where
  "plain c = (is_word_char c \<or> c = hyphen)"

definition clean_plain :: "string \<Rightarrow> string" where
  "clean_plain s = map lower_char (filter plain s)"

definition kept :: "int \<Rightarrow> int \<Rightarrow> char \<Rightarrow> bool" where
  "kept n i c = (plain c \<or> (c = apostrophe \<and> i = n - 2))"

definition stranded :: "string \<Rightarrow> bool" where
  "stranded t = (2 \<le> length t \<and> t ! (length t - 2) = apostrophe \<and> \<not> plain (last t))"

text \<open>
  A candidate \<open>matches\<close> a token when the two are equal without regard to case.
  \<open>outcome\<close> says what one masked position holds after its round, given the candidates
  the model returned; \<open>settled\<close> says it for a position of the finished sentence, where
  the sentence shown to the model has the corrected tokens before the position and the
  original ones after it.
\<close>

definition matches :: "TransSpell \<Rightarrow> string \<Rightarrow> int \<Rightarrow> bool" where
  "matches self token c = (lower (decode (lm self) c) = lower token)"

definition outcome :: "TransSpell \<Rightarrow> string \<Rightarrow> int list \<Rightarrow> string \<Rightarrow> bool" where
  "outcome self token results w =
     (if \<exists>c\<in>set results. matches self token c then w = token
      else results \<noteq> [] \<and> w = decode (lm self) (results ! 0))"

definition settled :: "TransSpell \<Rightarrow> string list \<Rightarrow> string list \<Rightarrow> nat \<Rightarrow> string \<Rightarrow> bool" where
  "settled self temp final p token =
     (if p = 0 \<or> token \<in> set (stopwords self) then final ! p = token
      else (case generate_candidates self (masked self (take p final @ drop p temp) p) 25 of
              Inl e \<Rightarrow> False
            | Inr results \<Rightarrow> outcome self token results (final ! p)))"

section \<open>Characters\<close>

lemma code_point_lower:
  "code_point (lower_char c) =
     (if in_range 65 90 (code_point c) \<or> in_range 192 214 (code_point c) \<or> in_range 216 222 (code_point c)
      then code_point c + 32 else code_point c)"
  by (auto simp: lower_char_def code_point_def in_range_def Let_def)

lemma code_point_inj: "code_point c = code_point d \<Longrightarrow> c = d"
  by (simp add: code_point_def)

lemma word_lower: "is_word_char c \<Longrightarrow> is_word_char (lower_char c)"
  unfolding is_word_char_def Let_def code_point_lower
  by (auto simp: in_range_def)

lemma lower_lower: "lower_char (lower_char c) = lower_char c"
  apply (rule code_point_inj)
  apply (simp only: code_point_lower[of "lower_char c"])
  apply (auto simp: code_point_lower in_range_def)
  done

lemma apostrophe_not_word: "\<not> is_word_char apostrophe"
  by (simp add: is_word_char_def code_point_def in_range_def)

lemma hyphen_not_word: "\<not> is_word_char hyphen"
  by (simp add: is_word_char_def code_point_def in_range_def)

lemma lower_hyphen: "lower_char hyphen = hyphen"
  by (simp add: lower_char_def code_point_def in_range_def)

lemma lower_apostrophe: "lower_char apostrophe = apostrophe"
  by (simp add: lower_char_def code_point_def in_range_def)

lemma plain_lower: "plain c \<Longrightarrow> plain (lower_char c)"
  by (auto simp: plain_def matches_nonword_def word_lower lower_hyphen)

lemma not_plain_apostrophe: "\<not> plain apostrophe"
  by (simp add: plain_def matches_nonword_def apostrophe_not_word)


section \<open>Cleaning, one round at a time\<close>

lemma clean_loop_step:
  "clean_loop n i (c # cs) acc =
     clean_loop n (i + 1) cs (if kept n i c then acc @ [lower_char c] else acc)"
  by (cases "i = n - 2") (auto simp: kept_def plain_def matches_nonword_def)

lemma clean_loop_acc: "clean_loop n i cs acc = acc @ clean_loop n i cs []"
proof (induction cs arbitrary: i acc)
  case Nil
  show ?case by simp
next
  case (Cons c cs)
  show ?case
    using Cons.IH[of "i + 1" "acc @ [lower_char c]"] Cons.IH[of "i + 1" "[lower_char c]"]
      Cons.IH[of "i + 1" acc]
    by (cases "kept n i c") (simp_all add: clean_loop_step del: clean_loop.simps)
qed

lemma clean_loop_append:
  "clean_loop n i (xs @ ys) acc = clean_loop n (i + int (length xs)) ys (clean_loop n i xs acc)"
proof (induction xs arbitrary: i acc)
  case Nil
  show ?case by simp
next
  case (Cons x xs)
  have "i + 1 + int (length xs) = i + int (length (x # xs))" by simp
  then show ?case
    by (simp only: append_Cons clean_loop_step Cons.IH)
qed

lemma clean_loop_plain:
  "(\<And>k. k < length cs \<Longrightarrow> cs ! k = apostrophe \<Longrightarrow> i + int k \<noteq> n - 2)
     \<Longrightarrow> clean_loop n i cs [] = clean_plain cs"
proof (induction cs arbitrary: i)
  case Nil
  show ?case by (simp add: clean_plain_def)
next
  case (Cons c cs)
  have rest: "clean_loop n (i + 1) cs [] = clean_plain cs"
  proof (rule Cons.IH)
    fix k assume "k < length cs" "cs ! k = apostrophe"
    then show "i + 1 + int k \<noteq> n - 2"
      using Cons.prems[of "Suc k"] by simp
  qed
  have "c = apostrophe \<Longrightarrow> i \<noteq> n - 2"
    using Cons.prems[of 0] by simp
  then have head: "kept n i c = plain c"
    by (auto simp: kept_def)
  show ?case
    using rest clean_loop_acc[of n "i + 1" cs "[lower_char c]"]
    by (simp only: clean_loop_step head) (simp add: clean_plain_def)
qed

lemma clean_plain_idem: "clean_plain (clean_plain s) = clean_plain s"
  by (induction s) (simp_all add: clean_plain_def plain_lower lower_lower)

lemma clean_plain_append: "clean_plain (xs @ ys) = clean_plain xs @ clean_plain ys"
  by (simp add: clean_plain_def)

lemma clean_plain_apostrophe: "clean_plain [apostrophe] = []"
  using not_plain_apostrophe by (simp add: clean_plain_def)

lemma no_apostrophe_clean_plain: "apostrophe \<notin> set (clean_plain s)"
proof
  assume "apostrophe \<in> set (clean_plain s)"
  then obtain c where "plain c" "lower_char c = apostrophe"
    by (auto simp: clean_plain_def)
  then show False
    using plain_lower[of c] not_plain_apostrophe by simp
qed

lemma clean_token_plain:
  assumes "\<not> (2 \<le> length t \<and> t ! (length t - 2) = apostrophe)"
  shows "clean_token t = clean_plain t"
  unfolding clean_token_def
proof (rule clean_loop_plain)
  fix k assume k: "k < length t" "t ! k = apostrophe"
  show "0 + int k \<noteq> int (length t) - 2"
  proof
    assume "0 + int k = int (length t) - 2"
    then have "k = length t - 2" "2 \<le> length t" by linarith+
    with k assms show False by simp
  qed
qed

lemma clean_token_contraction:
  "clean_token (p @ [apostrophe, l]) = clean_plain p @ [apostrophe] @ clean_plain [l]"
proof -
  let ?n = "int (length (p @ [apostrophe, l]))"
  have n: "?n - 2 = int (length p)" by simp
  have front: "clean_loop ?n 0 p [] = clean_plain p"
    by (rule clean_loop_plain) simp
  have k1: "kept ?n (0 + int (length p)) apostrophe"
    by (simp add: kept_def)
  have k2: "kept ?n (0 + int (length p) + 1) l = plain l"
    by (simp add: kept_def)
  have "clean_loop ?n (0 + int (length p)) [apostrophe, l] acc
      = acc @ [apostrophe] @ clean_plain [l]" for acc
    by (simp only: clean_loop_step k1 k2 clean_loop.simps(1))
       (simp add: clean_plain_def lower_apostrophe)
  then show ?thesis
    unfolding clean_token_def by (simp only: clean_loop_append front)
qed

lemma split_contraction:
  assumes "2 \<le> length t" "t ! (length t - 2) = apostrophe"
  shows "t = take (length t - 2) t @ [apostrophe, last t]"
proof -
  let ?p = "take (length t - 2) t"
  have "length (drop (length t - 2) t) = 2"
    using assms(1) by simp
  then obtain a b where ab: "drop (length t - 2) t = [a, b]"
    by (cases "drop (length t - 2) t"; cases "tl (drop (length t - 2) t)") auto
  have t: "t = ?p @ [a, b]"
    using ab by (metis append_take_drop_id)
  have lp: "length ?p = length t - 2" by simp
  have "t ! (length t - 2) = (?p @ [a, b]) ! length ?p"
    using t lp by simp
  then have "a = apostrophe" using assms(2) by (simp add: nth_append del: length_take)
  moreover have "last t = last (?p @ [a, b])" using t by simp
  then have "last t = b" by simp
  ultimately show ?thesis using t by simp
qed

section \<open>Cleaning twice\<close>

text \<open>
  C2 (as stated): cleaning is idempotent for every token.  This fails: the token
  \<open>dogs'.\<close> is cleaned to \<open>dogs'\<close>, whose apostrophe was in second-to-last position
  of the raw token but is last in the cleaned one, so a second cleaning gives \<open>dogs\<close>.
\<close>

theorem clean_token_not_idempotent:
  "clean_token (clean_token ''dogs'.'') \<noteq> clean_token ''dogs'.''"
  by code_simp

text \<open>
  C2 (amended): on strings of code points below 256, cleaning a cleaned token gives the
  same token exactly when the raw token is not stranded, that is, unless its
  second-to-last character is an apostrophe and its last character is neither a word
  character nor a hyphen.
\<close>

theorem clean_token_idempotent_iff:
  "clean_token (clean_token t) = clean_token t \<longleftrightarrow> \<not> stranded t"
proof (cases "2 \<le> length t \<and> t ! (length t - 2) = apostrophe")
  case False
  then have c: "clean_token t = clean_plain t" by (rule clean_token_plain)
  have "\<not> (2 \<le> length (clean_plain t) \<and> clean_plain t ! (length (clean_plain t) - 2) = apostrophe)"
  proof
    assume a: "2 \<le> length (clean_plain t) \<and> clean_plain t ! (length (clean_plain t) - 2) = apostrophe"
    then have "length (clean_plain t) - 2 < length (clean_plain t)" by arith
    then have "clean_plain t ! (length (clean_plain t) - 2) \<in> set (clean_plain t)"
      by (rule nth_mem)
    then show False
      using a no_apostrophe_clean_plain[of t] by simp
  qed
  then have "clean_token (clean_plain t) = clean_plain (clean_plain t)"
    by (rule clean_token_plain)
  moreover have "\<not> stranded t"
    using False by (auto simp: stranded_def)
  ultimately show ?thesis
    using c by (simp add: clean_plain_idem)
next
  case True
  define p where "p = take (length t - 2) t"
  have t: "t = p @ [apostrophe, last t]"
    using True split_contraction p_def by blast
  have c: "clean_token t = clean_plain p @ [apostrophe] @ clean_plain [last t]"
    using clean_token_contraction[of p "last t"] t by simp
  show ?thesis
  proof (cases "plain (last t)")
    case pl: True
    then have c': "clean_token t = clean_plain p @ [apostrophe, lower_char (last t)]"
      using c by (simp add: clean_plain_def)
    have "clean_token (clean_plain p @ [apostrophe, lower_char (last t)])
        = clean_plain (clean_plain p) @ [apostrophe] @ clean_plain [lower_char (last t)]"
      by (rule clean_token_contraction)
    then show ?thesis
      using pl True c' by (simp add: clean_plain_idem stranded_def clean_plain_def plain_lower lower_lower)
  next
    case npl: False
    then have c': "clean_token t = clean_plain p @ [apostrophe]"
      using c by (simp add: clean_plain_def)
    have "\<not> (2 \<le> length (clean_plain p @ [apostrophe])
            \<and> (clean_plain p @ [apostrophe]) ! (length (clean_plain p @ [apostrophe]) - 2) = apostrophe)"
    proof
      assume a: "2 \<le> length (clean_plain p @ [apostrophe])
            \<and> (clean_plain p @ [apostrophe]) ! (length (clean_plain p @ [apostrophe]) - 2) = apostrophe"
      then have "1 \<le> length (clean_plain p)" by simp
      then have "length (clean_plain p) - 1 < length (clean_plain p)" by arith
      moreover have "clean_plain p ! (length (clean_plain p) - 1) = apostrophe"
        using a \<open>length (clean_plain p) - 1 < length (clean_plain p)\<close> by (simp add: nth_append)
      ultimately show False
        using no_apostrophe_clean_plain[of p] by (metis nth_mem)
    qed
    then have "clean_token (clean_plain p @ [apostrophe]) = clean_plain (clean_plain p @ [apostrophe])"
      by (rule clean_token_plain)
    then have "clean_token (clean_token t) = clean_plain p"
      using c' by (simp add: clean_plain_append clean_plain_apostrophe clean_plain_idem)
    then show ?thesis
      using npl True c' by (simp add: stranded_def)
  qed
qed

theorem clean_token_idempotent_iff_witness:
  "clean_token (clean_token ''Don't'') = clean_token ''Don't'' \<and> \<not> stranded ''Don't''"
proof -
  have "\<not> stranded ''Don't''" by code_simp
  then show ?thesis
    using clean_token_idempotent_iff[of "''Don't''"] by simp
qed

section \<open>What a call of the detector leaves behind\<close>

lemma is_error_fields:
  assumes "is_error W self raw = (self', r)"
  shows "frequency_list self' = frequency_list self" "char_minimum self' = char_minimum self"
    "frequency_maximum self' = frequency_maximum self"
  using assms
  by (auto simp: is_error_def ensure_dict_us_def ensure_dict_gb_def Let_def
      split: sum.splits option.splits)

lemma is_error_returns:
  assumes "is_error W self raw = (self', Inr verdict)"
  shows "dict_us self' \<noteq> None" "dict_gb self' \<noteq> None"
    "detection_rules self' (clean_token raw) = Inr verdict"
  using assms
  by (auto simp: is_error_def ensure_dict_us_def ensure_dict_gb_def Let_def
      split: sum.splits option.splits)

lemma is_error_keeps_us: "dict_us self = Some d \<Longrightarrow> dict_us (fst (is_error W self raw)) = Some d"
  by (auto simp: is_error_def ensure_dict_us_def ensure_dict_gb_def Let_def
      split: sum.splits option.splits)

lemma is_error_keeps_gb: "dict_gb self = Some d \<Longrightarrow> dict_gb (fst (is_error W self raw)) = Some d"
  by (auto simp: is_error_def ensure_dict_us_def ensure_dict_gb_def Let_def
      split: sum.splits option.splits)

lemma generate_frequency_list_keeps:
  "dict_us (fst (snd (generate_frequency_list W self path))) = dict_us self"
  "dict_gb (fst (snd (generate_frequency_list W self path))) = dict_gb self"
  by (auto simp: generate_frequency_list_def Let_def split: sum.splits option.splits error.splits)

lemma after_keeps_us: "dict_us self = Some d \<Longrightarrow> dict_us (after W self c) = Some d"
  by (cases c) (simp_all add: is_error_keeps_us generate_frequency_list_keeps)

lemma after_keeps_gb: "dict_gb self = Some d \<Longrightarrow> dict_gb (after W self c) = Some d"
  by (cases c) (simp_all add: is_error_keeps_gb generate_frequency_list_keeps)

lemma lifetime_keeps_us: "dict_us self = Some d \<Longrightarrow> dict_us (lifetime W self calls) = Some d"
  unfolding lifetime_def
  by (induction calls arbitrary: self) (simp_all add: after_keeps_us)

lemma lifetime_keeps_gb: "dict_gb self = Some d \<Longrightarrow> dict_gb (lifetime W self calls) = Some d"
  unfolding lifetime_def
  by (induction calls arbitrary: self) (simp_all add: after_keeps_gb)

lemma is_error_us_missing:
  "dict_us self = None \<Longrightarrow> enchant_Dict W ''en_US'' = Inl e \<Longrightarrow> is_error W self raw = (self, Inl e)"
  by (simp add: is_error_def ensure_dict_us_def)

lemma is_error_gb_missing:
  "ensure_dict_us W self = Inr self1 \<Longrightarrow> dict_gb self = None \<Longrightarrow> enchant_Dict W ''en_GB'' = Inl e
     \<Longrightarrow> is_error W self raw = (self1, Inl e)"
  by (auto simp: is_error_def ensure_dict_us_def ensure_dict_gb_def split: option.splits sum.splits)

lemma lifetime_is_error_frequency_list:
  "frequency_list (lifetime W self (map Is_error raws)) = frequency_list self"
  unfolding lifetime_def
proof (induction raws arbitrary: self)
  case Nil
  show ?case by simp
next
  case (Cons raw raws)
  have "frequency_list (fst (is_error W self raw)) = frequency_list self"
    using is_error_fields(1)[of W self raw] by (simp add: prod_eq_iff)
  then show ?case
    using Cons.IH[of "fst (is_error W self raw)"] by simp
qed

section \<open>The detection rules\<close>

text \<open>
  C8: whenever \<open>is_error\<close> has its two providers and either of them reports the cleaned
  token as a known word, the call returns false, whatever the frequency list holds.
\<close>

theorem known_word_short_circuit:
  assumes "is_error W self raw = (self', r)"
    and "dict_us self' = Some us" and "dict_gb self' = Some gb"
    and "us (clean_token raw) \<or> gb (clean_token raw)"
  shows "r = Inr False"
  using assms
  by (auto simp: is_error_def ensure_dict_us_def ensure_dict_gb_def Let_def detection_rules_def
      known_word_def split: sum.splits option.splits if_splits)

theorem known_word_short_circuit_witness:
  "snd (is_error example_resources example_instance ''Hello'') = Inr False
   \<and> too_frequent example_instance (clean_token ''Hello'')
   \<and> snd (is_error example_resources example_instance ''Colour,'') = Inr False
   \<and> \<not> too_frequent example_instance (clean_token ''Colour,'')"
proof -
  let ?us = "\<lambda>w. w \<in> set [''color'', ''hello'']"
  let ?gb = "\<lambda>w. w \<in> set [''colour'', ''hello'']"
  have us: "dict_us (fst (is_error example_resources example_instance raw)) = Some ?us" for raw
    by (simp add: is_error_def ensure_dict_us_def ensure_dict_gb_def example_resources_def
        example_instance_def)
  have gb: "dict_gb (fst (is_error example_resources example_instance raw)) = Some ?gb" for raw
    by (simp add: is_error_def ensure_dict_us_def ensure_dict_gb_def example_resources_def
        example_instance_def)
  have k1: "?us (clean_token ''Hello'') \<or> ?gb (clean_token ''Hello'')" by code_simp
  have k2: "?us (clean_token ''Colour,'') \<or> ?gb (clean_token ''Colour,'')" by code_simp
  have f1: "too_frequent example_instance (clean_token ''Hello'')" by code_simp
  have f2: "\<not> too_frequent example_instance (clean_token ''Colour,'')" by code_simp
  show ?thesis
    using known_word_short_circuit[OF surjective_pairing us gb k1]
      known_word_short_circuit[OF surjective_pairing us gb k2] f1 f2
    by simp
qed

text \<open>
  C3 (as stated): a token whose frequency equals the threshold is treated as not an error
  by the frequency rule.  This fails: with the threshold at 10 and \<open>recieve\<close> counted 10
  times, the frequency rule does not fire and \<open>Recieve!\<close>, unknown to both word lists,
  is reported as an error.
\<close>

theorem frequency_boundary_counterexample:
  "count_of [(''recieve'', 10), (''hello'', 11)] (clean_token ''Recieve!'')
     = frequency_maximum example_instance
   \<and> frequency_list example_instance = Some [(''recieve'', 10), (''hello'', 11)]
   \<and> snd (is_error example_resources example_instance ''Recieve!'') = Inr True"
  by code_simp

text \<open>
  C3 (amended): for a cleaned token whose recorded frequency equals the threshold the
  frequency rule does not fire, the comparison being strict; when \<open>is_error\<close> returns,
  its verdict is true exactly when the cleaned token is longer than the minimum length
  and neither provider knows it.
\<close>

theorem frequency_boundary:
  assumes "frequency_list self = Some fl"
    and "count_of fl (clean_token raw) = frequency_maximum self"
    and "is_error W self raw = (self', Inr verdict)"
  shows "\<not> too_frequent self (clean_token raw) \<and>
         (verdict \<longleftrightarrow> \<not> too_short self (clean_token raw) \<and> known_word self' (clean_token raw) = Inr False)"
proof -
  have nf: "\<not> too_frequent self (clean_token raw)"
    using assms(1,2) by (simp add: too_frequent_def)
  have same: "too_frequent self' = too_frequent self" "too_short self' = too_short self"
    by (simp_all add: too_frequent_def too_short_def fun_eq_iff is_error_fields[OF assms(3)]
        split: option.splits)
  have "detection_rules self' (clean_token raw) = Inr verdict"
    using is_error_returns(3)[OF assms(3)] .
  then show ?thesis
    using nf same by (auto simp: detection_rules_def split: if_splits sum.splits)
qed


theorem frequency_boundary_witness:
  "\<not> too_frequent example_instance (clean_token ''Recieve!'') \<and>
   \<not> too_short example_instance (clean_token ''Recieve!'') \<and>
   known_word (fst (is_error example_resources example_instance ''Recieve!''))
     (clean_token ''Recieve!'') = Inr False"
proof -
  have h1: "frequency_list example_instance = Some [(''recieve'', 10), (''hello'', 11)]"
    by (simp add: example_instance_def)
  have h2: "count_of [(''recieve'', 10), (''hello'', 11)] (clean_token ''Recieve!'')
      = frequency_maximum example_instance"
    by code_simp
  have "snd (is_error example_resources example_instance ''Recieve!'') = Inr True"
    by code_simp
  then have h3: "is_error example_resources example_instance ''Recieve!''
      = (fst (is_error example_resources example_instance ''Recieve!''), Inr True)"
    by (simp add: prod_eq_iff)
  show ?thesis
    using frequency_boundary[OF h1 h2 h3] by simp
qed

text \<open>
  C10: \<open>is_error\<close> constructs the two providers before any rule is evaluated.  If the
  en_US word list is missing, or en_US is available and en_GB is missing, the call raises
  for every token, also one the length rule would exempt; a call that returns leaves both
  providers set, with the verdict of the rules on that instance; and a provider that is
  set stays the same one through any later calls of the methods.
\<close>

theorem providers_loaded_first:
  "(dict_us self = None \<and> enchant_Dict W ''en_US'' = Inl e
      \<longrightarrow> snd (is_error W self raw) = Inl e) \<and>
   ((dict_us self \<noteq> None \<or> (\<exists>d. enchant_Dict W ''en_US'' = Inr d))
      \<and> dict_gb self = None \<and> enchant_Dict W ''en_GB'' = Inl e
      \<longrightarrow> snd (is_error W self raw) = Inl e) \<and>
   (snd (is_error W self raw) = Inr verdict
      \<longrightarrow> dict_us (fst (is_error W self raw)) \<noteq> None
          \<and> dict_gb (fst (is_error W self raw)) \<noteq> None
          \<and> detection_rules (fst (is_error W self raw)) (clean_token raw) = Inr verdict) \<and>
   (dict_us self = Some us \<longrightarrow> dict_us (lifetime W self calls) = Some us) \<and>
   (dict_gb self = Some gb \<longrightarrow> dict_gb (lifetime W self calls) = Some gb)"
proof (intro conjI impI)
  assume "dict_us self = None \<and> enchant_Dict W ''en_US'' = Inl e"
  then show "snd (is_error W self raw) = Inl e"
    by (simp add: is_error_us_missing)
next
  assume a: "(dict_us self \<noteq> None \<or> (\<exists>d. enchant_Dict W ''en_US'' = Inr d))
      \<and> dict_gb self = None \<and> enchant_Dict W ''en_GB'' = Inl e"
  then have "\<exists>self1. ensure_dict_us W self = Inr self1"
    by (cases "dict_us self") (auto simp: ensure_dict_us_def)
  then obtain self1 where "ensure_dict_us W self = Inr self1" ..
  then show "snd (is_error W self raw) = Inl e"
    using a is_error_gb_missing[of W self self1 e raw] by simp
next
  assume "snd (is_error W self raw) = Inr verdict"
  then have r: "is_error W self raw = (fst (is_error W self raw), Inr verdict)"
    by (simp add: prod_eq_iff)
  show "dict_us (fst (is_error W self raw)) \<noteq> None"
    using is_error_returns(1)[OF r] .
  show "dict_gb (fst (is_error W self raw)) \<noteq> None"
    using is_error_returns(2)[OF r] .
  show "detection_rules (fst (is_error W self raw)) (clean_token raw) = Inr verdict"
    using is_error_returns(3)[OF r] .
next
  assume "dict_us self = Some us"
  then show "dict_us (lifetime W self calls) = Some us" by (rule lifetime_keeps_us)
next
  assume "dict_gb self = Some gb"
  then show "dict_gb (lifetime W self calls) = Some gb" by (rule lifetime_keeps_gb)
qed


theorem providers_loaded_first_witness:
  "too_short example_instance (clean_token ''a'')
   \<and> snd (is_error bare_resources example_instance ''a'') = Inl DictNotFoundError
   \<and> snd (is_error us_only_resources example_instance ''a'') = Inl DictNotFoundError
   \<and> dict_us (fst (is_error example_resources example_instance ''a'')) \<noteq> None
   \<and> dict_gb (fst (is_error example_resources example_instance ''a'')) \<noteq> None
   \<and> dict_us (lifetime bare_resources loaded_instance
         [Is_error ''a'', Generate_frequency_list ''corpus.csv'', Correct_errors ''a b''])
       = Some (\<lambda>w. w \<in> set [''color'', ''hello''])
   \<and> dict_gb (lifetime bare_resources loaded_instance
         [Is_error ''a'', Generate_frequency_list ''corpus.csv'', Correct_errors ''a b''])
       = Some (\<lambda>w. w \<in> set [''colour'', ''hello''])"
proof -
  have short: "too_short example_instance (clean_token ''a'')" by code_simp
  have none: "dict_us example_instance = None" "dict_gb example_instance = None"
    by (simp_all add: example_instance_def)
  have "enchant_Dict bare_resources ''en_US'' = Inl DictNotFoundError"
    by (simp add: bare_resources_def)
  then have p1: "snd (is_error bare_resources example_instance ''a'') = Inl DictNotFoundError"
    using none providers_loaded_first[of example_instance bare_resources DictNotFoundError "''a''"]
    by blast
  have "\<exists>d. enchant_Dict us_only_resources ''en_US'' = Inr d"
    "enchant_Dict us_only_resources ''en_GB'' = Inl DictNotFoundError"
    by (simp_all add: us_only_resources_def)
  then have p2: "snd (is_error us_only_resources example_instance ''a'') = Inl DictNotFoundError"
    using none providers_loaded_first[of example_instance us_only_resources DictNotFoundError "''a''"]
    by blast
  have "snd (is_error example_resources example_instance ''a'') = Inr False"
    by code_simp
  then have p3: "dict_us (fst (is_error example_resources example_instance ''a'')) \<noteq> None"
    "dict_gb (fst (is_error example_resources example_instance ''a'')) \<noteq> None"
    using providers_loaded_first[of example_instance example_resources _ "''a''" False]
    by blast+
  have "dict_us loaded_instance = Some (\<lambda>w. w \<in> set [''color'', ''hello''])"
    "dict_gb loaded_instance = Some (\<lambda>w. w \<in> set [''colour'', ''hello''])"
    by (simp_all add: loaded_instance_def)
  then have p4: "dict_us (lifetime bare_resources loaded_instance
         [Is_error ''a'', Generate_frequency_list ''corpus.csv'', Correct_errors ''a b''])
       = Some (\<lambda>w. w \<in> set [''color'', ''hello''])"
    "dict_gb (lifetime bare_resources loaded_instance
         [Is_error ''a'', Generate_frequency_list ''corpus.csv'', Correct_errors ''a b''])
       = Some (\<lambda>w. w \<in> set [''colour'', ''hello''])"
    using providers_loaded_first[of loaded_instance bare_resources]
    by blast+
  show ?thesis
    using short p1 p2 p3 p4 by (intro conjI)
qed

section \<open>The constructor and the corpus\<close>

text \<open>
  C7: when the corpus file is not found, the constructor prints the message, raises
  nothing and leaves no frequency list; after any number of later \<open>is_error\<close> calls the
  frequency rule still fires for no token.
\<close>

theorem missing_corpus_recovered:
  assumes "read_csv W path = Inl FileNotFoundError" and "path \<noteq> []"
  shows "\<exists>self. init W pretrained english mn mx (Some path) = ([not_found_message], Inr self)
           \<and> frequency_list self = None
           \<and> (\<forall>W' raws token. \<not> too_frequent (lifetime W' self (map Is_error raws)) token)"
  using assms
  by (simp add: init_def generate_frequency_list_def too_frequent_def
      lifetime_is_error_frequency_list)

theorem missing_corpus_recovered_witness:
  "init bare_resources example_model [''to'', ''the''] 3 10 (Some ''nowhere.csv'')
     = ([not_found_message],
        Inr (projr (snd (init bare_resources example_model [''to'', ''the''] 3 10
                     (Some ''nowhere.csv'')))))
   \<and> frequency_list (projr (snd (init bare_resources example_model [''to'', ''the''] 3 10
                     (Some ''nowhere.csv'')))) = None"
proof -
  have h1: "read_csv bare_resources ''nowhere.csv'' = Inl FileNotFoundError"
    by (simp add: bare_resources_def)
  have h2: "''nowhere.csv'' \<noteq> []" by simp
  obtain self where
    "init bare_resources example_model [''to'', ''the''] 3 10 (Some ''nowhere.csv'')
       = ([not_found_message], Inr self)"
    "frequency_list self = None"
    using missing_corpus_recovered[OF h1 h2, of example_model "[''to'', ''the'']" 3 10] by blast
  then show ?thesis by simp
qed

text \<open>
  C1: after construction with a readable corpus the instance should hold the frequency
  table of the corpus.  It does not: \<open>generate_frequency_list\<close> builds the table in the
  attribute and returns \<open>None\<close>, and the constructor assigns that return value to the
  attribute, so every instance the constructor returns has no frequency list.
\<close>

theorem init_discards_frequency_list:
  assumes "init W pretrained english mn mx corpus_path = (out, Inr self)"
  shows "frequency_list self = None"
  using assms
  by (auto simp: init_def Let_def split: option.splits if_splits prod.splits sum.splits)
     (auto simp: generate_frequency_list_def Let_def split: sum.splits error.splits option.splits)

theorem init_discards_frequency_list_witness:
  "frequency_list (fst (snd (generate_frequency_list example_resources loaded_instance ''corpus.csv'')))
     = Some [(''hello'', 2), (''world'', 1), (''again'', 1)]
   \<and> fst (init example_resources example_model [''to'', ''the''] 3 10 (Some ''corpus.csv'')) = []
   \<and> \<not> isl (snd (init example_resources example_model [''to'', ''the''] 3 10 (Some ''corpus.csv'')))
   \<and> frequency_list (projr (snd (init example_resources example_model [''to'', ''the''] 3 10
        (Some ''corpus.csv'')))) = None"
proof -
  have built: "frequency_list (fst (snd (generate_frequency_list example_resources loaded_instance ''corpus.csv'')))
     = Some [(''hello'', 2), (''world'', 1), (''again'', 1)]"
    by code_simp
  have out: "fst (init example_resources example_model [''to'', ''the''] 3 10 (Some ''corpus.csv'')) = []"
    by code_simp
  have r: "\<not> isl (snd (init example_resources example_model [''to'', ''the''] 3 10 (Some ''corpus.csv'')))"
    by (simp add: init_def generate_frequency_list_def example_resources_def)
  then have "init example_resources example_model [''to'', ''the''] 3 10 (Some ''corpus.csv'')
     = ([], Inr (projr (snd (init example_resources example_model [''to'', ''the''] 3 10
        (Some ''corpus.csv'')))))"
    using out by (simp add: prod_eq_iff)
  then have "frequency_list (projr (snd (init example_resources example_model [''to'', ''the''] 3 10
        (Some ''corpus.csv'')))) = None"
    by (rule init_discards_frequency_list)
  then show ?thesis using built out r by simp
qed


section \<open>Splitting and joining are inverse\<close>

lemma split_sp_nonempty: "split_sp s \<noteq> []"
  by (induction s) (auto split: list.splits)

lemma join_split: "join_sp (split_sp s) = s"
proof (induction s)
  case Nil
  show ?case by simp
next
  case (Cons c cs)
  obtain w ws where ws: "split_sp cs = w # ws"
    using split_sp_nonempty[of cs] by (cases "split_sp cs") auto
  show ?case
    using Cons.IH ws by (cases ws) auto
qed

lemma split_sp_no_blank: "t \<in> set (split_sp s) \<Longrightarrow> blank \<notin> set t"
proof (induction s arbitrary: t)
  case Nil
  then show ?case by simp
next
  case (Cons c cs)
  obtain w ws where ws: "split_sp cs = w # ws"
    using split_sp_nonempty[of cs] by (cases "split_sp cs") auto
  show ?case
    using Cons ws by (auto split: if_splits)
qed

lemma split_sp_append_blank:
  "blank \<notin> set x \<Longrightarrow> split_sp (x @ blank # rest) = x # split_sp rest"
  by (induction x) auto

lemma split_sp_word: "blank \<notin> set x \<Longrightarrow> split_sp x = [x]"
  by (induction x) auto

lemma split_join:
  "ts \<noteq> [] \<Longrightarrow> (\<And>t. t \<in> set ts \<Longrightarrow> blank \<notin> set t) \<Longrightarrow> split_sp (join_sp ts) = ts"
proof (induction ts rule: join_sp.induct)
  case 1
  then show ?case by simp
next
  case (2 x)
  then show ?case by (simp add: split_sp_word)
next
  case (3 x y ys)
  have "split_sp (join_sp (y # ys)) = y # ys"
    using 3 by simp
  then show ?case
    using 3(3)[of x] by (simp add: split_sp_append_blank)
qed

section \<open>The scan over the candidates\<close>

lemma scan_found:
  "fst (scan dec token cs) \<longleftrightarrow> (\<exists>c\<in>set cs. lower (dec c) = lower token)"
  by (induction cs) (auto simp: Let_def split: prod.splits)

lemma scan_none:
  "\<not> fst (scan dec token cs) \<Longrightarrow> snd (scan dec token cs) = map (\<lambda>c. Decoded (dec c)) cs"
  by (induction cs) (auto simp: Let_def split: prod.splits if_splits)

lemma scan_first:
  "j < length cs \<Longrightarrow> lower (dec (cs ! j)) = lower token
     \<Longrightarrow> (\<And>k. k < j \<Longrightarrow> lower (dec (cs ! k)) \<noteq> lower token)
     \<Longrightarrow> scan dec token cs
           = (True, map (\<lambda>c. Decoded (dec c)) (take (Suc j) cs) @ map Code (drop (Suc j) cs))"
proof (induction cs arbitrary: j)
  case Nil
  then show ?case by simp
next
  case (Cons c cs)
  show ?case
  proof (cases j)
    case 0
    then show ?thesis using Cons.prems(2) by (simp add: Let_def)
  next
    case (Suc j')
    have nm: "lower (dec c) \<noteq> lower token"
      using Cons.prems(3)[of 0] Suc by simp
    have "scan dec token cs
           = (True, map (\<lambda>c. Decoded (dec c)) (take (Suc j') cs) @ map Code (drop (Suc j') cs))"
    proof (rule Cons.IH)
      show "j' < length cs" using Cons.prems(1) Suc by simp
      show "lower (dec (cs ! j')) = lower token" using Cons.prems(2) Suc by simp
      fix k assume "k < j'"
      then show "lower (dec (cs ! k)) \<noteq> lower token"
        using Cons.prems(3)[of "Suc k"] Suc by simp
    qed
    then show ?thesis
      using nm Suc by (simp add: Let_def)
  qed
qed


section \<open>One round of the correction loop\<close>

lemma correct_token_Inr:
  assumes "correct_token self i token temp = Inr temp'"
  shows "i < length temp"
    and "\<exists>results. generate_candidates self (masked self temp i) 25 = Inr results
           \<and> (if \<exists>c\<in>set results. matches self token c then temp' = temp
               else results \<noteq> [] \<and> temp' = temp[i := decode (lm self) (results ! 0)])"
proof -
  show len: "i < length temp"
    using assms by (auto simp: correct_token_def split: if_splits)
  obtain results where g: "generate_candidates self (masked self temp i) 25 = Inr results"
    using assms len by (auto simp: correct_token_def split: sum.splits)
  obtain found rs where sc: "scan (decode (lm self)) token results = (found, rs)"
    by (cases "scan (decode (lm self)) token results")
  have f: "found \<longleftrightarrow> (\<exists>c\<in>set results. matches self token c)"
    using scan_found[of "decode (lm self)" token results] sc by (simp add: matches_def)
  have "if found then temp' = temp
        else results \<noteq> [] \<and> temp' = temp[i := decode (lm self) (results ! 0)]"
  proof (cases found)
    case True
    then show ?thesis
      using assms len g sc by (simp add: correct_token_def)
  next
    case False
    then have rs: "rs = map (\<lambda>c. Decoded (decode (lm self) c)) results"
      using scan_none[of "decode (lm self)" token results] sc by simp
    show ?thesis
    proof (cases results)
      case Nil
      then show ?thesis
        using assms len g sc rs False by (simp add: correct_token_def)
    next
      case (Cons r rest)
      then show ?thesis
        using assms len g sc rs False by (auto simp: correct_token_def)
    qed
  qed
  then show "\<exists>results. generate_candidates self (masked self temp i) 25 = Inr results
           \<and> (if \<exists>c\<in>set results. matches self token c then temp' = temp
               else results \<noteq> [] \<and> temp' = temp[i := decode (lm self) (results ! 0)])"
    using g f by auto
qed

lemma correct_token_shape:
  assumes "correct_token self i token temp = Inr temp'" and "temp ! i = token"
  shows "length temp' = length temp" and "take i temp' = take i temp"
    and "drop (Suc i) temp' = drop (Suc i) temp"
    and "settled self temp temp' i token \<or> i = 0 \<or> token \<in> set (stopwords self)"
proof -
  obtain results where g: "generate_candidates self (masked self temp i) 25 = Inr results"
    and r: "if \<exists>c\<in>set results. matches self token c then temp' = temp
            else results \<noteq> [] \<and> temp' = temp[i := decode (lm self) (results ! 0)]"
    using correct_token_Inr(2)[OF assms(1)] by blast
  have len: "i < length temp" using correct_token_Inr(1)[OF assms(1)] .
  show "length temp' = length temp" using r by (auto split: if_splits)
  show t: "take i temp' = take i temp" using r by (auto split: if_splits)
  show "drop (Suc i) temp' = drop (Suc i) temp" using r by (auto split: if_splits)
  have "take i temp' @ drop i temp = temp" using t by simp
  moreover have "outcome self token results (temp' ! i)"
    using r len assms(2) by (auto simp: outcome_def split: if_splits)
  ultimately show "settled self temp temp' i token \<or> i = 0 \<or> token \<in> set (stopwords self)"
    using g by (simp add: settled_def)
qed


lemma settled_cong:
  "take (Suc p) final = take (Suc p) final' \<Longrightarrow> drop p temp = drop p temp'
     \<Longrightarrow> settled self temp final p token = settled self temp' final' p token"
proof -
  assume a: "take (Suc p) final = take (Suc p) final'" and b: "drop p temp = drop p temp'"
  have "take p (take (Suc p) final) = take p (take (Suc p) final')" using a by simp
  then have t: "take p final = take p final'" by (simp add: min_def)
  have "take (Suc p) final ! p = take (Suc p) final' ! p" using a by simp
  then have n: "final ! p = final' ! p" by simp
  show ?thesis
    unfolding settled_def using t n b by (simp split: sum.splits)
qed

lemma correct_loop_char:
  assumes "snd (correct_loop self (zip [i..<i + length ts] ts) temp) = Inr final"
    and "drop i temp = ts"
  shows "length final = length temp \<and> take i final = take i temp \<and>
         (\<forall>k<length ts. settled self temp final (i + k) (ts ! k))"
  using assms
proof (induction ts arbitrary: i temp)
  case Nil
  then show ?case by simp
next
  case (Cons t ts)
  have z: "zip [i..<i + length (t # ts)] (t # ts) = (i, t) # zip [Suc i..<Suc i + length ts] ts"
    by (subst upt_rec) simp
  have len: "i < length temp"
    using Cons.prems(2) by (metis drop_all list.distinct(1) not_le)
  have ti: "temp ! i = t" and rest: "drop (Suc i) temp = ts"
    using Cons.prems(2) len by (simp_all add: Cons_nth_drop_Suc[symmetric])
  show ?case
  proof (cases "i = 0 \<or> t \<in> set (stopwords self)")
    case True
    then have "snd (correct_loop self (zip [Suc i..<Suc i + length ts] ts) temp) = Inr final"
      using Cons.prems(1) unfolding z by simp
    from Cons.IH[OF this rest]
    have l: "length final = length temp" and tk: "take (Suc i) final = take (Suc i) temp"
      and later: "\<forall>k<length ts. settled self temp final (Suc i + k) (ts ! k)"
      by simp_all
    have "take i (take (Suc i) final) = take i (take (Suc i) temp)" using tk by simp
    then have tk': "take i final = take i temp" by (simp add: min_def)
    have "take (Suc i) final ! i = take (Suc i) temp ! i" using tk by simp
    then have "final ! i = t" using ti by simp
    then have here: "settled self temp final i t"
      using True by (simp add: settled_def)
    have "settled self temp final (i + k) ((t # ts) ! k)" if "k < length (t # ts)" for k
      using that here later by (cases k) auto
    then show ?thesis using l tk' by simp
  next
    case False
    obtain temp' where ct: "correct_token self i t temp = Inr temp'"
      and lp: "snd (correct_loop self (zip [Suc i..<Suc i + length ts] ts) temp') = Inr final"
      using Cons.prems(1) False unfolding z
      by (auto split: sum.splits prod.splits)
    note sh = correct_token_shape[OF ct ti]
    have rest': "drop (Suc i) temp' = ts" using sh(3) rest by simp
    from Cons.IH[OF lp rest']
    have l: "length final = length temp'" and tk: "take (Suc i) final = take (Suc i) temp'"
      and later: "\<forall>k<length ts. settled self temp' final (Suc i + k) (ts ! k)"
      by simp_all
    have "take i (take (Suc i) final) = take i (take (Suc i) temp')" using tk by simp
    then have tk': "take i final = take i temp" using sh(2) by (simp add: min_def)
    have "settled self temp temp' i t" using sh(4) False by simp
    then have here: "settled self temp final i t"
      using settled_cong[of i final temp' temp temp self t] tk by simp
    have later': "settled self temp final (Suc i + k) (ts ! k)" if "k < length ts" for k
    proof -
      have "drop (Suc i + k) temp' = drop (Suc i + k) temp"
        using sh(3) by (metis drop_drop add.commute)
      then show ?thesis
        using later that settled_cong[of "Suc i + k" final final temp' temp self "ts ! k"] by simp
    qed
    have "settled self temp final (i + k) ((t # ts) ! k)" if "k < length (t # ts)" for k
      using that here later' by (cases k) auto
    then show ?thesis using l sh(1) tk' by simp
  qed
qed


section \<open>The corrected sentence\<close>

lemma correct_errors_Inr:
  assumes "snd (correct_errors self sequence) = Inr out"
  shows "\<exists>final. snd (correct_loop self (enumerate (split_sp sequence)) (split_sp sequence)) = Inr final
           \<and> out = join_sp final"
  using assms
  by (auto simp: correct_errors_def Let_def split: prod.splits sum.splits)

lemma correct_errors_tokens:
  assumes "snd (correct_errors self sequence) = Inr out"
  shows "\<exists>final. out = join_sp final \<and> length final = length (split_sp sequence)
           \<and> (\<forall>k<length final. settled self (split_sp sequence) final k (split_sp sequence ! k))"
proof -
  obtain final where
    lp: "snd (correct_loop self (enumerate (split_sp sequence)) (split_sp sequence)) = Inr final"
    and out: "out = join_sp final"
    using correct_errors_Inr[OF assms] by blast
  have "snd (correct_loop self (zip [0..<0 + length (split_sp sequence)] (split_sp sequence))
          (split_sp sequence)) = Inr final"
    using lp by (simp add: enumerate_def)
  from correct_loop_char[OF this]
  have "length final = length (split_sp sequence)"
    "\<forall>k<length (split_sp sequence). settled self (split_sp sequence) final k (split_sp sequence ! k)"
    by simp_all
  then show ?thesis using out by auto
qed

lemma settled_blank_free:
  assumes "settled self temp final p token" and "blank \<notin> set token"
    and "\<forall>c. blank \<notin> set (decode (lm self) c)"
  shows "blank \<notin> set (final ! p)"
  using assms
  by (auto simp: settled_def outcome_def split: if_splits sum.splits)

lemma correct_errors_split:
  assumes "snd (correct_errors self sequence) = Inr out"
    and "\<forall>c. blank \<notin> set (decode (lm self) c)"
  shows "length (split_sp out) = length (split_sp sequence)
         \<and> (\<forall>k<length (split_sp out). settled self (split_sp sequence) (split_sp out) k (split_sp sequence ! k))"
proof -
  obtain final where out: "out = join_sp final"
    and len: "length final = length (split_sp sequence)"
    and st: "\<forall>k<length final. settled self (split_sp sequence) final k (split_sp sequence ! k)"
    using correct_errors_tokens[OF assms(1)] by blast
  have ne: "final \<noteq> []"
    using len split_sp_nonempty[of sequence] by auto
  have "blank \<notin> set t" if "t \<in> set final" for t
  proof -
    have "\<exists>k<length final. final ! k = t"
      using that by (simp add: in_set_conv_nth)
    then obtain k where k: "k < length final" "t = final ! k" by blast
    have "blank \<notin> set (split_sp sequence ! k)"
      using k(1) len split_sp_no_blank[of "split_sp sequence ! k" sequence] by simp
    then show ?thesis
      using settled_blank_free[of self "split_sp sequence" final k "split_sp sequence ! k"]
        st k assms(2) by simp
  qed
  then have "split_sp out = final"
    using out ne split_join[of final] by simp
  then show ?thesis using len st by simp
qed

lemma correct_loop_all_skipped:
  "(\<And>i t. (i, t) \<in> set its \<Longrightarrow> i = 0 \<or> t \<in> set (stopwords self))
     \<Longrightarrow> correct_loop self its temp = ([], Inr temp)"
  by (induction its) auto

lemma example_blank_free: "\<forall>c. blank \<notin> set (decode (lm example_instance) c)"
  by (simp add: example_instance_def example_model_def)

lemma example_run:
  "snd (correct_errors example_instance ''We made ensure to meet'') = Inr ''We made sure to sure''"
  by code_simp

text \<open>
  When the model answers every query with at least one candidate, the correction returns
  a sentence.
\<close>

lemma correct_token_returns:
  assumes "i < length temp"
    and "\<And>s. \<exists>rs. predict (lm self) s 25 = Inr rs \<and> rs \<noteq> []"
  shows "\<exists>temp'. correct_token self i token temp = Inr temp' \<and> length temp' = length temp"
proof -
  obtain rs where g: "generate_candidates self (masked self temp i) 25 = Inr rs" and ne: "rs \<noteq> []"
    using assms(2)[of "masked self temp i"] by (auto simp: generate_candidates_def)
  obtain r rest where rs: "rs = r # rest" using ne by (cases rs) auto
  obtain found out where sc: "scan (decode (lm self)) token rs = (found, out)"
    by (cases "scan (decode (lm self)) token rs")
  show ?thesis
  proof (cases found)
    case True
    then show ?thesis using assms(1) g sc by (simp add: correct_token_def)
  next
    case False
    then have "out = map (\<lambda>c. Decoded (decode (lm self) c)) rs"
      using scan_none[of "decode (lm self)" token rs] sc by simp
    then show ?thesis using assms(1) g sc False rs by (simp add: correct_token_def)
  qed
qed

lemma correct_loop_returns:
  assumes "\<And>i t. (i, t) \<in> set its \<Longrightarrow> i < length temp"
    and "\<And>s. \<exists>rs. predict (lm self) s 25 = Inr rs \<and> rs \<noteq> []"
  shows "\<exists>final. snd (correct_loop self its temp) = Inr final"
  using assms(1)
proof (induction its arbitrary: temp)
  case Nil
  show ?case by simp
next
  case (Cons it its)
  obtain i t where it: "it = (i, t)" by (cases it)
  show ?case
  proof (cases "i = 0 \<or> t \<in> set (stopwords self)")
    case True
    then show ?thesis using Cons.IH[of temp] Cons.prems it by auto
  next
    case False
    have "i < length temp" using Cons.prems[of i t] it by simp
    then obtain temp' where ct: "correct_token self i t temp = Inr temp'"
      and l: "length temp' = length temp"
      using correct_token_returns[of i temp self t] assms(2) by blast
    have "\<exists>final. snd (correct_loop self its temp') = Inr final"
      using Cons.IH[of temp'] Cons.prems l by auto
    then show ?thesis using False ct it by (auto split: prod.splits)
  qed
qed

lemma correct_errors_returns:
  assumes "\<And>s. \<exists>rs. predict (lm self) s 25 = Inr rs \<and> rs \<noteq> []"
  shows "\<exists>out. snd (correct_errors self sequence) = Inr out"
proof -
  have "\<exists>final. snd (correct_loop self (enumerate (split_sp sequence)) (split_sp sequence)) = Inr final"
    using assms by (intro correct_loop_returns) (auto simp: enumerate_def in_set_zip)
  then show ?thesis
    by (auto simp: correct_errors_def split: prod.splits sum.splits)
qed

text \<open>
  C9: if the sentence has at most one token, or every token after the first is a
  stopword, \<open>correct_errors\<close> returns the sentence as it was and sends no query to the
  model.
\<close>

theorem nothing_to_correct:
  assumes "length (split_sp sequence) \<le> 1
           \<or> (\<forall>i<length (split_sp sequence). i \<noteq> 0 \<longrightarrow> split_sp sequence ! i \<in> set (stopwords self))"
  shows "correct_errors self sequence = ([], Inr sequence)"
proof -
  have all: "\<forall>i<length (split_sp sequence). i \<noteq> 0 \<longrightarrow> split_sp sequence ! i \<in> set (stopwords self)"
    using assms by auto
  have "correct_loop self (enumerate (split_sp sequence)) (split_sp sequence)
          = ([], Inr (split_sp sequence))"
  proof (rule correct_loop_all_skipped)
    fix i t assume "(i, t) \<in> set (enumerate (split_sp sequence))"
    then have "i < length (split_sp sequence)" "t = split_sp sequence ! i"
      by (auto simp: enumerate_def in_set_zip)
    then show "i = 0 \<or> t \<in> set (stopwords self)"
      using all by auto
  qed
  then show ?thesis
    by (simp add: correct_errors_def join_split)
qed

theorem nothing_to_correct_witness:
  "correct_errors example_instance ''Go to the'' = ([], Inr ''Go to the'')
   \<and> correct_errors example_instance ''Hello'' = ([], Inr ''Hello'')
   \<and> correct_errors example_instance [] = ([], Inr [])"
proof -
  have t: "split_sp ''Go to the'' = [''Go'', ''to'', ''the'']" by code_simp
  have "\<forall>i<length (split_sp ''Go to the''). i \<noteq> 0 \<longrightarrow>
          split_sp ''Go to the'' ! i \<in> set (stopwords example_instance)"
    unfolding t by (auto simp: example_instance_def less_Suc_eq)
  then have a: "correct_errors example_instance ''Go to the'' = ([], Inr ''Go to the'')"
    using nothing_to_correct[of "''Go to the''" example_instance] by blast
  have "length (split_sp ''Hello'') \<le> 1" by code_simp
  then have b: "correct_errors example_instance ''Hello'' = ([], Inr ''Hello'')"
    using nothing_to_correct[of "''Hello''" example_instance] by blast
  have "length (split_sp []) \<le> 1" by simp
  then have c: "correct_errors example_instance [] = ([], Inr [])"
    using nothing_to_correct[of "[]" example_instance] by blast
  show ?thesis using a b c by simp
qed

text \<open>
  C4: let \<open>correct_errors\<close> return, and let \<open>final\<close> be the tokens it joined.  For every
  position that is neither the first nor a stopword, the model was asked for 25 candidates
  on the sentence with that position masked.  If the candidate at index \<open>j\<close> is the
  first whose decoded form equals the raw token up to case, the token is unchanged and
  the scan has decoded the candidates up to \<open>j\<close> and left the later ones untouched.  If
  no candidate matches, the list is not empty and the token is the decoded candidate at
  index 0.
\<close>

theorem masked_position_decision:
  assumes "snd (correct_errors self sequence) = Inr out"
  shows "\<exists>final. out = join_sp final \<and> length final = length (split_sp sequence) \<and>
     (\<forall>i<length final. i \<noteq> 0 \<and> split_sp sequence ! i \<notin> set (stopwords self) \<longrightarrow>
        (\<exists>results.
           generate_candidates self
             (masked self (take i final @ drop i (split_sp sequence)) i) 25 = Inr results \<and>
           (\<forall>j<length results.
              matches self (split_sp sequence ! i) (results ! j) \<and>
              (\<forall>k<j. \<not> matches self (split_sp sequence ! i) (results ! k)) \<longrightarrow>
                final ! i = split_sp sequence ! i \<and>
                scan (decode (lm self)) (split_sp sequence ! i) results
                  = (True, map (\<lambda>c. Decoded (decode (lm self) c)) (take (Suc j) results)
                             @ map Code (drop (Suc j) results))) \<and>
           ((\<forall>c\<in>set results. \<not> matches self (split_sp sequence ! i) c) \<longrightarrow>
                results \<noteq> [] \<and> final ! i = decode (lm self) (results ! 0))))"
proof -
  obtain final where out: "out = join_sp final"
    and len: "length final = length (split_sp sequence)"
    and st: "\<forall>k<length final. settled self (split_sp sequence) final k (split_sp sequence ! k)"
    using correct_errors_tokens[OF assms] by blast
  have "\<exists>results.
           generate_candidates self
             (masked self (take i final @ drop i (split_sp sequence)) i) 25 = Inr results \<and>
           (\<forall>j<length results.
              matches self (split_sp sequence ! i) (results ! j) \<and>
              (\<forall>k<j. \<not> matches self (split_sp sequence ! i) (results ! k)) \<longrightarrow>
                final ! i = split_sp sequence ! i \<and>
                scan (decode (lm self)) (split_sp sequence ! i) results
                  = (True, map (\<lambda>c. Decoded (decode (lm self) c)) (take (Suc j) results)
                             @ map Code (drop (Suc j) results))) \<and>
           ((\<forall>c\<in>set results. \<not> matches self (split_sp sequence ! i) c) \<longrightarrow>
                results \<noteq> [] \<and> final ! i = decode (lm self) (results ! 0))"
    if i: "i < length final" and ns: "i \<noteq> 0 \<and> split_sp sequence ! i \<notin> set (stopwords self)" for i
  proof -
    let ?tok = "split_sp sequence ! i"
    have "settled self (split_sp sequence) final i ?tok" using st i by simp
    then obtain results where
      g: "generate_candidates self (masked self (take i final @ drop i (split_sp sequence)) i) 25
            = Inr results"
      and oc: "outcome self ?tok results (final ! i)"
      using ns by (auto simp: settled_def split: sum.splits)
    have first: "final ! i = ?tok \<and>
                scan (decode (lm self)) ?tok results
                  = (True, map (\<lambda>c. Decoded (decode (lm self) c)) (take (Suc j) results)
                             @ map Code (drop (Suc j) results))"
      if j: "j < length results" and m: "matches self ?tok (results ! j)"
        and before: "\<forall>k<j. \<not> matches self ?tok (results ! k)" for j
    proof -
      have "\<exists>c\<in>set results. matches self ?tok c"
        using j m by (metis nth_mem)
      then have "final ! i = ?tok" using oc by (simp add: outcome_def)
      moreover have "scan (decode (lm self)) ?tok results
                  = (True, map (\<lambda>c. Decoded (decode (lm self) c)) (take (Suc j) results)
                             @ map Code (drop (Suc j) results))"
        using j m before by (intro scan_first) (auto simp: matches_def)
      ultimately show ?thesis by simp
    qed
    have none: "results \<noteq> [] \<and> final ! i = decode (lm self) (results ! 0)"
      if "\<forall>c\<in>set results. \<not> matches self ?tok c"
      using that oc by (auto simp: outcome_def)
    show ?thesis
      using g first none by blast
  qed
  then show ?thesis
    using out len by blast
qed

theorem masked_position_decision_witness:
  "snd (correct_errors example_instance ''We made ensure to meet'') = Inr ''We made sure to sure''
   \<and> (\<exists>final. ''We made sure to sure'' = join_sp final \<and> length final = 5
          \<and> final ! 1 = ''made'' \<and> final ! 2 = ''sure'')
   \<and> scan (decode (lm example_instance)) ''made'' [1, 2, 3]
       = (True, [Decoded ''sure'', Decoded ''Made'', Code 3])"
proof -
  let ?toks = "split_sp ''We made ensure to meet''"
  have toks: "?toks = [''We'', ''made'', ''ensure'', ''to'', ''meet'']" by code_simp
  have gen: "generate_candidates example_instance x 25 = Inr [1, 2, 3]" for x
    by (simp add: generate_candidates_def example_instance_def example_model_def)
  have sw: "stopwords example_instance = [''to'', ''the'']"
    by (simp add: example_instance_def)
  have m11: "\<not> matches example_instance ''made'' 1" by code_simp
  have m12: "matches example_instance ''made'' 2" by code_simp
  have m2: "\<forall>c\<in>set [1, 2, 3]. \<not> matches example_instance ''ensure'' c" by code_simp
  have d1: "decode (lm example_instance) 1 = ''sure''"
    by (simp add: example_instance_def example_model_def)
  obtain final where f: "''We made sure to sure'' = join_sp final"
    and len: "length final = length ?toks"
    and pos: "\<forall>i<length final. i \<noteq> 0 \<and> ?toks ! i \<notin> set (stopwords example_instance) \<longrightarrow>
        (\<exists>results.
           generate_candidates example_instance
             (masked example_instance (take i final @ drop i ?toks) i) 25 = Inr results \<and>
           (\<forall>j<length results.
              matches example_instance (?toks ! i) (results ! j) \<and>
              (\<forall>k<j. \<not> matches example_instance (?toks ! i) (results ! k)) \<longrightarrow>
                final ! i = ?toks ! i \<and>
                scan (decode (lm example_instance)) (?toks ! i) results
                  = (True, map (\<lambda>c. Decoded (decode (lm example_instance) c)) (take (Suc j) results)
                             @ map Code (drop (Suc j) results))) \<and>
           ((\<forall>c\<in>set results. \<not> matches example_instance (?toks ! i) c) \<longrightarrow>
                results \<noteq> [] \<and> final ! i = decode (lm example_instance) (results ! 0)))"
    using masked_position_decision[OF example_run] by blast
  have l5: "length final = 5" using len toks by simp
  have p1: "\<forall>j<length [1, 2, 3::int].
              matches example_instance ''made'' ([1, 2, 3] ! j) \<and>
              (\<forall>k<j. \<not> matches example_instance ''made'' ([1, 2, 3] ! k)) \<longrightarrow>
                final ! 1 = ''made'' \<and>
                scan (decode (lm example_instance)) ''made'' [1, 2, 3]
                  = (True, map (\<lambda>c. Decoded (decode (lm example_instance) c)) (take (Suc j) [1, 2, 3])
                             @ map Code (drop (Suc j) [1, 2, 3]))"
    using pos[rule_format, of 1] l5 by (simp add: toks sw gen)
  have "final ! 1 = ''made'' \<and>
        scan (decode (lm example_instance)) ''made'' [1, 2, 3]
          = (True, map (\<lambda>c. Decoded (decode (lm example_instance) c)) (take (Suc 1) [1, 2, 3])
                             @ map Code (drop (Suc 1) [1, 2, 3]))"
    using p1[rule_format, of 1] m11 m12 by simp
  then have r1: "final ! 1 = ''made''"
    and r2: "scan (decode (lm example_instance)) ''made'' [1, 2, 3]
       = (True, [Decoded ''sure'', Decoded ''Made'', Code 3])"
    by (simp_all add: example_instance_def example_model_def)
  have "(\<forall>c\<in>set [1, 2, 3]. \<not> matches example_instance ''ensure'' c) \<longrightarrow>
                [1, 2, 3::int] \<noteq> [] \<and> final ! 2 = decode (lm example_instance) ([1, 2, 3] ! 0)"
    using pos[rule_format, of 2] l5 by (simp add: toks sw gen)
  then have r3: "final ! 2 = ''sure''"
    using m2 d1 by simp
  show ?thesis
    using example_run f l5 r1 r2 r3 by blast
qed

text \<open>
  C5: with a tokenizer whose decoded tokens contain no blank, the output of
  \<open>correct_errors\<close>, split at single blanks, holds the input's token at index 0 and at
  every index whose raw token is a stopword.
\<close>

theorem skipped_positions_unchanged:
  assumes "snd (correct_errors self sequence) = Inr out"
    and "\<forall>c. blank \<notin> set (decode (lm self) c)"
    and "i < length (split_sp sequence)"
    and "i = 0 \<or> split_sp sequence ! i \<in> set (stopwords self)"
  shows "i < length (split_sp out) \<and> split_sp out ! i = split_sp sequence ! i"
proof -
  have l: "length (split_sp out) = length (split_sp sequence)"
    and st: "\<forall>k<length (split_sp out). settled self (split_sp sequence) (split_sp out) k (split_sp sequence ! k)"
    using correct_errors_split[OF assms(1,2)] by simp_all
  have "settled self (split_sp sequence) (split_sp out) i (split_sp sequence ! i)"
    using st l assms(3) by simp
  then show ?thesis
    using assms(3,4) l by (auto simp: settled_def)
qed

theorem skipped_positions_unchanged_witness:
  "snd (correct_errors example_instance ''We made ensure to meet'') = Inr ''We made sure to sure''
   \<and> split_sp ''We made sure to sure'' ! 0 = split_sp ''We made ensure to meet'' ! 0
   \<and> split_sp ''We made sure to sure'' ! 3 = split_sp ''We made ensure to meet'' ! 3
   \<and> split_sp ''We made ensure to meet'' ! 3 \<in> set (stopwords example_instance)"
proof -
  have l0: "0 < length (split_sp ''We made ensure to meet'')" by code_simp
  have l3: "3 < length (split_sp ''We made ensure to meet'')" by code_simp
  have s3: "split_sp ''We made ensure to meet'' ! 3 \<in> set (stopwords example_instance)"
    by code_simp
  have "split_sp ''We made sure to sure'' ! 0 = split_sp ''We made ensure to meet'' ! 0"
    using skipped_positions_unchanged[OF example_run example_blank_free l0] by simp
  moreover have "split_sp ''We made sure to sure'' ! 3 = split_sp ''We made ensure to meet'' ! 3"
    using skipped_positions_unchanged[OF example_run example_blank_free l3] s3 by simp
  ultimately show ?thesis using example_run s3 by simp
qed

text \<open>
  C6: with a tokenizer whose decoded tokens contain no blank, the output of
  \<open>correct_errors\<close> splits at single blanks into as many tokens as the input.
\<close>

theorem token_count_preserved:
  assumes "snd (correct_errors self sequence) = Inr out"
    and "\<forall>c. blank \<notin> set (decode (lm self) c)"
  shows "length (split_sp out) = length (split_sp sequence)"
  using correct_errors_split[OF assms] by simp

theorem token_count_preserved_witness:
  "snd (correct_errors example_instance ''We made ensure to meet'') = Inr ''We made sure to sure''
   \<and> length (split_sp ''We made sure to sure'') = length (split_sp ''We made ensure to meet'')"
  using token_count_preserved[OF example_run example_blank_free] example_run by simp

end
